theory Spec2Isabelle
  imports Complex_Main "HOL-Library.Word"
begin

unbundle bit_operations_syntax

section \<open>The breathing-monitor log parser (analyze\_breathing\_data.py)\<close>

text \<open>
  Conventions of the embedding.
  \<^item> A Python float and a numpy float64 are modelled as a \<^typ>\<open>real\<close>: arithmetic is exact,
    rounding is not modelled and the non-finite values (inf, nan) have no counterpart.
  \<^item> The library routines the script calls but does not define are parameters, collected
    in the record \<open>pylib\<close>: Python's \<open>float()\<close>, the decoding of a big-endian IEEE single
    by \<open>struct.unpack\<close>, \<open>scipy.signal.butter\<close>, \<open>scipy.signal.lfilter_zi\<close> and
    \<open>datetime.fromtimestamp\<close>.
    Every general theorem holds for any value of these parameters.
  \<^item> Every exception of the script is a value of \<open>error\<close>; a function that may raise
    returns \<open>error + 'a\<close>.
\<close>

type_synonym byte = "8 word"

datatype error =
    StructError        \<comment> \<open>struct.error: unpack requires a buffer of n bytes\<close>
  | ValueError string  \<comment> \<open>could not convert string to float: the offending string\<close>
  | IndexError         \<comment> \<open>index 0 is out of bounds for axis 0 with size 0\<close>
  | TypeError          \<comment> \<open>unsupported operand type(s) for +: NoneType and float\<close>
  | TimestampError     \<comment> \<open>datetime.fromtimestamp: timestamp or year out of range\<close>

record pylib =
  float_of :: "string \<Rightarrow> real option"       \<comment> \<open>float(s); None when it raises ValueError\<close>
  unpack_f :: "32 word \<Rightarrow> real"              \<comment> \<open>the value of one big-endian single\<close>
  butter :: "nat \<Rightarrow> real \<Rightarrow> string \<Rightarrow> real list \<times> real list"  \<comment> \<open>signal.butter(order, Wn, btype)\<close>
  lfilter_zi :: "real list \<Rightarrow> real list \<Rightarrow> real list"        \<comment> \<open>signal.lfilter\_zi(b, a)\<close>
  fromtimestamp :: "real \<Rightarrow> string option"
    \<comment> \<open>datetime.fromtimestamp(t).isoformat(), T replaced by a blank; None when it raises\<close>

subsection \<open>Python helpers\<close>

definition endswith :: "string \<Rightarrow> string \<Rightarrow> bool" where
  "endswith s suf = (length suf \<le> length s \<and> drop (length s - length suf) s = suf)"

text \<open>\<open>for array, value in zip(values, numbers): array.append(value)\<close>: the arrays beyond
  the shorter of the two sequences are left as they are.\<close>

fun append_row :: "'a list list \<Rightarrow> 'a list \<Rightarrow> 'a list list" where
  "append_row (array # arrays) (v # numbers) = (array @ [v]) # append_row arrays numbers"
| "append_row arrays [] = arrays"
| "append_row [] numbers = []"

text \<open>\<open>xs[0]\<close> on a sequence: IndexError when it is empty.\<close>

definition index0 :: "'a list \<Rightarrow> error + 'a" where
  "index0 xs = (case xs of [] \<Rightarrow> Inl IndexError | x # _ \<Rightarrow> Inr x)"

subsection \<open>Binary format\<close>

definition value_count :: nat where
  "value_count = 11"

text \<open>\<open>struct.unpack(">q", bs)[0]\<close>: a signed big-endian 64-bit integer, from exactly 8 bytes.\<close>

definition unpack_q :: "byte list \<Rightarrow> error + int" where
  "unpack_q bs = (if length bs \<noteq> 8 then Inl StructError
                  else Inr (sint (word_rcat bs :: 64 word)))"

fun unpack_floats :: "pylib \<Rightarrow> nat \<Rightarrow> byte list \<Rightarrow> real list" where
  "unpack_floats L 0 bs = []"
| "unpack_floats L (Suc n) bs =
     unpack_f L (word_rcat (take 4 bs) :: 32 word) # unpack_floats L n (drop 4 bs)"

text \<open>\<open>struct.unpack(">q{}f".format(n), bs)\<close>: one 64-bit integer and n singles, from
  exactly 8 + 4 n bytes.\<close>

definition unpack_qf :: "pylib \<Rightarrow> nat \<Rightarrow> byte list \<Rightarrow> error + real list" where
  "unpack_qf L n bs = (if length bs \<noteq> 8 + n * 4 then Inl StructError
     else Inr (of_int (sint (word_rcat (take 8 bs) :: 64 word)) # unpack_floats L n (drop 8 bs)))"

text \<open>The \<open>while True\<close> loop of the constructor. \<open>rest\<close> is what the file still holds;
  \<open>file_in.read(k)\<close> returns \<open>take k rest\<close> and leaves \<open>drop k rest\<close>.\<close>

function read_records :: "pylib \<Rightarrow> byte list \<Rightarrow> real list list \<Rightarrow> error + real list list" where
  "read_records L rest arrays =
     (let value_bytes = take (8 + (value_count - 1) * 4) rest in
      if value_bytes = [] then Inr arrays
      else (case unpack_qf L (value_count - 1) value_bytes of
              Inl e \<Rightarrow> Inl e
            | Inr numbers \<Rightarrow>
                read_records L (drop (8 + (value_count - 1) * 4) rest) (append_row arrays numbers)))"
  by pat_completeness auto
termination
  by (relation "measure (\<lambda>(L, rest, arrays). length rest)") (auto simp: value_count_def)

definition read_dat :: "pylib \<Rightarrow> byte list \<Rightarrow> error + (real option \<times> real list list)" where
  \<comment> \<open>the start timestamp is the header divided by 1.0e3\<close>
  "read_dat L raw =
     (case unpack_q (take 8 raw) of
        Inl e \<Rightarrow> Inl e
      | Inr ms \<Rightarrow>
          (case read_records L (drop 8 raw) (replicate value_count []) of
             Inl e \<Rightarrow> Inl e
           | Inr arrays \<Rightarrow> Inr (Some (of_int ms / 1000), arrays)))"

subsection \<open>Text format\<close>

text \<open>\<open>str.splitlines()\<close> on a string of code points below 256: the line boundaries are
  LF, VT, FF, CR, CR LF, FS, GS, RS and NEL; no empty last line is produced.\<close>

definition is_linebreak :: "char \<Rightarrow> bool" where
  "is_linebreak c = (of_char c \<in> {10, 11, 12, 13, 28, 29, 30, 133 :: nat})"

fun splitlines_from :: "string \<Rightarrow> string \<Rightarrow> string list" where
  "splitlines_from cur [] = (if cur = [] then [] else [cur])"
| "splitlines_from cur [c] = (if is_linebreak c then [cur] else [cur @ [c]])"
| "splitlines_from cur (c # d # cs) =
     (if of_char c = (13 :: nat) \<and> of_char d = (10 :: nat) then cur # splitlines_from [] cs
      else if is_linebreak c then cur # splitlines_from [] (d # cs)
      else splitlines_from (cur @ [c]) (d # cs))"

definition splitlines :: "string \<Rightarrow> string list" where
  "splitlines text = splitlines_from [] text"

text \<open>\<open>line.split(",")\<close>: never empty, the empty line gives one empty field.\<close>

fun split_from :: "char \<Rightarrow> string \<Rightarrow> string \<Rightarrow> string list" where
  "split_from sep cur [] = [cur]"
| "split_from sep cur (c # cs) =
     (if c = sep then cur # split_from sep [] cs else split_from sep (cur @ [c]) cs)"

definition split_comma :: "string \<Rightarrow> string list" where
  "split_comma line = split_from (CHR '','') [] line"

text \<open>\<open>[float(string) for string in strings]\<close>: the first field that \<open>float\<close> rejects raises.\<close>

fun floats :: "pylib \<Rightarrow> string list \<Rightarrow> error + real list" where
  "floats L [] = Inr []"
| "floats L (s # strings) =
     (case float_of L s of
        None \<Rightarrow> Inl (ValueError s)
      | Some v \<Rightarrow> (case floats L strings of Inl e \<Rightarrow> Inl e | Inr vs \<Rightarrow> Inr (v # vs)))"

fun read_lines :: "pylib \<Rightarrow> string list \<Rightarrow> real list list \<Rightarrow> error + real list list" where
  "read_lines L [] arrays = Inr arrays"
| "read_lines L (line # lines) arrays =
     (case floats L (split_comma line) of
        Inl e \<Rightarrow> Inl e
      | Inr numbers \<Rightarrow> read_lines L lines (append_row arrays numbers))"

definition read_text :: "pylib \<Rightarrow> string \<Rightarrow> error + (real option \<times> real list list)" where
  "read_text L text =
     (case read_lines L (splitlines text) (replicate value_count []) of
        Inl e \<Rightarrow> Inl e
      | Inr arrays \<Rightarrow> Inr (None, arrays))"

subsection \<open>Signal derivation\<close>

text \<open>\<open>array.mean()\<close>. On an empty array numpy returns nan with a warning and raises
  nothing; the script uses that mean only elementwise on the same empty array, so its
  value is never observed.\<close>

definition mean :: "real list \<Rightarrow> real" where
  "mean xs = sum_list xs / of_nat (length xs)"

text \<open>\<open>scipy.signal.lfilter(b, a, x, zi=zi)\<close> is a library routine. It is modelled after
  its documentation, a direct form II transposed realisation of the difference equation,
  with the coefficients divided by \<open>a[0]\<close>:
  \<open>y[m] = b[0] x[m] + z[0]\<close> and \<open>z[i] := b[i+1] x[m] + z[i+1] - a[i+1] y[m]\<close>, the delay
  after the last one being 0. It returns the output and the final delays. The shapes are
  those of the script: \<open>butter(order, ...)\<close> returns \<open>b\<close> and \<open>a\<close> of \<open>order + 1\<close>
  coefficients and \<open>lfilter_zi(b, a)\<close> a state of \<open>order\<close> delays. On other shapes, which
  scipy pads or rejects and the script never produces, the model still returns a value
  (the recurrence stops at the shortest list).\<close>

definition lfilter_step :: "real list \<Rightarrow> real list \<Rightarrow> real list \<Rightarrow> real \<Rightarrow> real \<times> real list" where
  "lfilter_step b a z x =
     (let y = (case b of [] \<Rightarrow> 0 | b0 # _ \<Rightarrow> b0) * x + (case z of [] \<Rightarrow> 0 | z0 # _ \<Rightarrow> z0)
      in (y, map (\<lambda>(bi, ai, zi). bi * x + zi - ai * y) (zip (tl b) (zip (tl a) (tl z @ [0])))))"

fun lfilter_run :: "real list \<Rightarrow> real list \<Rightarrow> real list \<Rightarrow> real list \<Rightarrow> real list \<times> real list" where
  "lfilter_run b a [] z = ([], z)"
| "lfilter_run b a (x # xs) z =
     (case lfilter_step b a z x of
        (y, z') \<Rightarrow> (case lfilter_run b a xs z' of (ys, zf) \<Rightarrow> (y # ys, zf)))"

definition lfilter :: "real list \<Rightarrow> real list \<Rightarrow> real list \<Rightarrow> real list \<Rightarrow> real list \<times> real list" where
  "lfilter b a x zi =
     (let a0 = (case a of [] \<Rightarrow> 1 | a0 # _ \<Rightarrow> a0)
      in lfilter_run (map (\<lambda>c. c / a0) b) (map (\<lambda>c. c / a0) a) x zi)"

record BreathingMonitorFile =
  filename :: string
  values_of :: "real list list"
  start_unix_timestamp :: "real option"
  timestamps :: "real list"
  positions :: "real list"
  angles :: "real list"
  azimuth :: "real list"
  pitch :: "real list"
  roll :: "real list"
  thermistor :: "real list"
  spo2 :: "real list"
  pulse_rate :: "real list"
  perfusion_index :: "real list"
  mean_spo2_wave :: "real list"
  elapsed :: "real list"
  signal :: "real list"
  low_pass :: "real list"
  high_pass :: "real list"
  thermistor_low_pass :: "real list"

text \<open>One filter application of the constructor, as it is written three times:
  \<open>b, a = signal.butter(order, wn, btype); zi = signal.lfilter_zi(b, a);
  out, _ = signal.lfilter(b, a, x, zi=zi * x[0])\<close>.\<close>

definition filtered :: "pylib \<Rightarrow> nat \<Rightarrow> real \<Rightarrow> string \<Rightarrow> real list \<Rightarrow> error + real list" where
  "filtered L order wn btype x =
     (case butter L order wn btype of
        (b, a) \<Rightarrow>
          (let zi = lfilter_zi L b a in
           (case index0 x of
              Inl e \<Rightarrow> Inl e
            | Inr x0 \<Rightarrow> Inr (fst (lfilter b a x (map (\<lambda>z. z * x0) zi))))))"

text \<open>Lines 43 to 60 of the constructor, on the eleven arrays the parser filled.
  \<open>np.array(values, np.float64)\<close> is the identity of the model.\<close>

definition derive ::
  "pylib \<Rightarrow> string \<Rightarrow> real option \<Rightarrow> real list list \<Rightarrow> error + BreathingMonitorFile" where
  "derive L fname start arrays =
     (let ts = arrays ! 0; pos = arrays ! 1; th_raw = arrays ! 6 in
      (case index0 ts of
         Inl e \<Rightarrow> Inl e
       | Inr t0 \<Rightarrow>
          (let el = map (\<lambda>t. t / 1000000000 - t0 / 1000000000) ts;
               th = map (\<lambda>x. (x - mean th_raw) * 0.02) th_raw;
               order = 3 in
           (case filtered L order 0.1 ''low'' pos of
              Inl e \<Rightarrow> Inl e
            | Inr lp \<Rightarrow>
               (case filtered L order 0.3 ''high'' pos of
                  Inl e \<Rightarrow> Inl e
                | Inr hp \<Rightarrow>
                   (case filtered L order 0.15 ''low'' th of
                      Inl e \<Rightarrow> Inl e
                    | Inr tlp \<Rightarrow>
                       Inr \<lparr> filename = fname, values_of = arrays,
                             start_unix_timestamp = start,
                             timestamps = ts, positions = pos, angles = arrays ! 2,
                             azimuth = arrays ! 3, pitch = arrays ! 4, roll = arrays ! 5,
                             thermistor = th, spo2 = arrays ! 7, pulse_rate = arrays ! 8,
                             perfusion_index = arrays ! 9, mean_spo2_wave = arrays ! 10,
                             elapsed = el, signal = pos, low_pass = lp, high_pass = hp,
                             thermistor_low_pass = tlp \<rparr>))))))"

text \<open>The constructor \<open>BreathingMonitorFile(filename)\<close>. The file is given twice, as the
  script opens it: \<open>raw\<close> is what \<open>open(filename, "rb")\<close> reads, \<open>text\<close> is what
  \<open>open(filename).read()\<close> returns.\<close>

definition init :: "pylib \<Rightarrow> string \<Rightarrow> byte list \<Rightarrow> string \<Rightarrow> error + BreathingMonitorFile" where
  "init L fname raw text =
     (case (if endswith fname ''.dat'' then read_dat L raw else read_text L text) of
        Inl e \<Rightarrow> Inl e
      | Inr (start, arrays) \<Rightarrow> derive L fname start arrays)"

text \<open>The eleven channel sequences of a constructed object, in the order of the
  assignment in line 44 (\<open>thermistor\<close> is the rescaled copy that replaces the raw one).\<close>

definition channels :: "BreathingMonitorFile \<Rightarrow> real list list" where
  "channels r = [timestamps r, positions r, angles r, azimuth r, pitch r, roll r,
                 thermistor r, spo2 r, pulse_rate r, perfusion_index r, mean_spo2_wave r]"

subsection \<open>Report pagination (process\_files)\<close>

definition max_data_points :: nat where
  "max_data_points = 1000"

text \<open>\<open>range(start, stop, step)\<close> for the positive step the script uses.\<close>

function py_range :: "nat \<Rightarrow> nat \<Rightarrow> nat \<Rightarrow> nat list" where
  "py_range start stop step =
     (if start < stop \<and> 0 < step then start # py_range (start + step) stop step else [])"
  by pat_completeness auto
termination
  by (relation "measure (\<lambda>(start, stop, step). stop - start)") auto

text \<open>\<open>values[point_idx: point_idx + max_data_points]\<close>: a slice never raises.\<close>

definition region :: "nat \<Rightarrow> 'a list \<Rightarrow> 'a list" where
  "region point_idx vals = take max_data_points (drop point_idx vals)"

text \<open>The limits \<open>set_non_zero_ylim\<close> hands to \<open>set_ylim\<close>.\<close>

definition set_non_zero_ylim :: "real list \<Rightarrow> real \<times> real" where
  "set_non_zero_ylim vals =
     (let non_zero = filter (\<lambda>v. v \<noteq> 0) vals in
      if length non_zero = 0 then (0, 1)
      else (let lo = Min (set non_zero); hi = Max (set non_zero);
                margin = max 0.1 (hi - lo) * 0.05
            in (lo - margin, hi + margin)))"

record window =
  start_time :: string
  w_x :: "real list"
  w_y :: "real list"
  w_roll :: "real list"
  w_pitch :: "real list"
  w_thermistor_low_pass :: "real list"
  w_spo2 :: "real list"
  w_pulse_rate :: "real list"
  w_perfusion_index :: "real list"
  w_mean_spo2_wave :: "real list"
  ylim_pulse_rate :: "real \<times> real"
  ylim_spo2 :: "real \<times> real"
  ylim_perfusion_index :: "real \<times> real"
  ylim_mean_spo2_wave :: "real \<times> real"

text \<open>One turn of the loop over \<open>point_idx\<close>: what is handed to the plotting library.
  \<open>data.start_unix_timestamp + data.elapsed[point_idx]\<close> raises IndexError when the index
  is out of range and TypeError when the start timestamp is None (a text file);
  \<open>datetime.fromtimestamp\<close> raises on a timestamp it cannot represent. The calls into
  matplotlib and the report are taken to succeed.\<close>

definition render_window :: "pylib \<Rightarrow> BreathingMonitorFile \<Rightarrow> nat \<Rightarrow> error + window" where
  "render_window L data point_idx =
     (if length (elapsed data) \<le> point_idx then Inl IndexError
      else (case start_unix_timestamp data of
              None \<Rightarrow> Inl TypeError
            | Some start \<Rightarrow>
               (case fromtimestamp L (start + elapsed data ! point_idx) of
                  None \<Rightarrow> Inl TimestampError
                | Some label \<Rightarrow>
                   Inr \<lparr> start_time = label,
                         w_x = region point_idx (elapsed data),
                         w_y = region point_idx (map uminus (positions data)),
                         w_roll = map (\<lambda>v. v * 180 / pi) (region point_idx (roll data)),
                         w_pitch = map (\<lambda>v. v * 180 / pi) (region point_idx (pitch data)),
                         w_thermistor_low_pass = region point_idx (thermistor_low_pass data),
                         w_spo2 = region point_idx (spo2 data),
                         w_pulse_rate = region point_idx (pulse_rate data),
                         w_perfusion_index = region point_idx (perfusion_index data),
                         w_mean_spo2_wave = region point_idx (mean_spo2_wave data),
                         ylim_pulse_rate =
                           set_non_zero_ylim (region point_idx (pulse_rate data)),
                         ylim_spo2 = set_non_zero_ylim (region point_idx (spo2 data)),
                         ylim_perfusion_index =
                           set_non_zero_ylim (region point_idx (perfusion_index data)),
                         ylim_mean_spo2_wave =
                           set_non_zero_ylim (region point_idx (mean_spo2_wave data)) \<rparr>)))"

fun render_rows :: "pylib \<Rightarrow> BreathingMonitorFile \<Rightarrow> nat list \<Rightarrow> error + window list" where
  "render_rows L data [] = Inr []"
| "render_rows L data (point_idx # idxs) =
     (case render_window L data point_idx of
        Inl e \<Rightarrow> Inl e
      | Inr w \<Rightarrow> (case render_rows L data idxs of Inl e \<Rightarrow> Inl e | Inr ws \<Rightarrow> Inr (w # ws)))"

text \<open>\<open>process_files\<close> from the construction of \<open>data\<close> on, for the file it selected: no
  exception is caught, so a failing constructor ends the run. The result is the list of
  rows of the report, one window each.\<close>

definition process_files :: "pylib \<Rightarrow> string \<Rightarrow> byte list \<Rightarrow> string \<Rightarrow> error + window list" where
  "process_files L fname raw text =
     (case init L fname raw text of
        Inl e \<Rightarrow> Inl e
      | Inr data \<Rightarrow>
          render_rows L data (py_range 0 (length (map uminus (positions data))) max_data_points))"

subsection \<open>An instance of the library parameters\<close>

text \<open>The general theorems below hold for every \<open>pylib\<close>. To run the definitions on
  concrete files the parameters are instantiated: \<open>float()\<close> restricted to the strings of
  ASCII digits (on which it returns the number they spell; every other string is rejected
  here, so the examples use digit strings and the string \<open>x\<close>, which \<open>float()\<close> rejects as
  well), the value of a finite IEEE single, in place of the Butterworth design a fixed
  third-order filter of the same shape (the binomial smoother \<open>b = [1, 3, 3, 1] / 8\<close>,
  \<open>a = [1, 0, 0, 0]\<close>) with the delays \<open>[7/8, 1/2, 1/8]\<close> of its steady state for a unit
  input, and a \<open>fromtimestamp\<close> that accepts every timestamp and gives it an empty
  label.\<close>

definition digit_strings :: "string \<Rightarrow> real option" where
  "digit_strings s =
     (if s \<noteq> [] \<and> (\<forall>c \<in> set s. 48 \<le> (of_char c :: nat) \<and> (of_char c :: nat) \<le> 57)
      then Some (of_nat (foldl (\<lambda>n c. 10 * n + (of_char c - 48)) 0 s)) else None)"

definition ieee_single :: "32 word \<Rightarrow> real" where
  "ieee_single w =
     (let e = unat (drop_bit 23 w AND 255); m = unat (w AND 0x7FFFFF);
          mag = (if e = 0 then of_nat m / 2 ^ 149
                 else if 150 \<le> e then of_nat (2 ^ 23 + m) * 2 ^ (e - 150)
                 else of_nat (2 ^ 23 + m) / 2 ^ (150 - e))
      in if bit w 31 then - mag else mag)"

definition lib0 :: pylib where
  "lib0 = \<lparr> float_of = digit_strings, unpack_f = ieee_single,
            butter = (\<lambda>order wn btype. ([1 / 8, 3 / 8, 3 / 8, 1 / 8], [1, 0, 0, 0])),
            lfilter_zi = (\<lambda>b a. [7 / 8, 1 / 2, 1 / 8]),
            fromtimestamp = (\<lambda>t. Some []) \<rparr>"

section \<open>Properties\<close>

subsection \<open>The record loop of the binary format\<close>

declare read_records.simps [simp del]

lemma length_unpack_floats: "length (unpack_floats L n bs) = n"
  by (induction n arbitrary: bs) auto

lemma length_append_row: "length (append_row arrays numbers) = length arrays"
  by (induction arrays numbers rule: append_row.induct) auto

lemma append_row_lengths:
  "length arrays \<le> length numbers \<Longrightarrow> \<forall>a \<in> set arrays. length a = k
   \<Longrightarrow> \<forall>a \<in> set (append_row arrays numbers). length a = Suc k"
  by (induction arrays numbers rule: append_row.induct) auto

lemma unpack_qf_ok:
  "length bs = 8 + n * 4 \<Longrightarrow> \<exists>numbers. unpack_qf L n bs = Inr numbers \<and> length numbers = Suc n"
  by (simp add: unpack_qf_def length_unpack_floats)

lemma read_records_step:
  assumes "48 \<le> length rest"
  shows "\<exists>numbers. length numbers = 11 \<and>
           read_records L rest arrays = read_records L (drop 48 rest) (append_row arrays numbers)"
proof -
  have lvb: "length (take 48 rest) = 8 + 10 * 4" using assms by simp
  obtain numbers where nu: "unpack_qf L 10 (take 48 rest) = Inr numbers" "length numbers = 11"
    using unpack_qf_ok [OF lvb, of L] by auto
  have ne: "take 48 rest \<noteq> []" using lvb by auto
  have "read_records L rest arrays = read_records L (drop 48 rest) (append_row arrays numbers)"
    using ne nu by (subst read_records.simps) (simp add: value_count_def)
  with nu show ?thesis by blast
qed

lemma read_records_whole:
  "length rest = 48 * n \<Longrightarrow> length arrays = 11 \<Longrightarrow> \<forall>a \<in> set arrays. length a = k \<Longrightarrow>
   \<exists>arrays'. read_records L rest arrays = Inr arrays' \<and> length arrays' = 11 \<and>
      (\<forall>a \<in> set arrays'. length a = k + n)"
proof (induction n arbitrary: rest arrays k)
  case 0
  then show ?case by (subst read_records.simps) simp
next
  case (Suc n)
  obtain numbers where nu: "length numbers = 11"
    and step: "read_records L rest arrays = read_records L (drop 48 rest) (append_row arrays numbers)"
    using read_records_step [of rest L arrays] Suc.prems(1) by auto
  have "\<exists>arrays'. read_records L (drop 48 rest) (append_row arrays numbers) = Inr arrays' \<and>
      length arrays' = 11 \<and> (\<forall>a \<in> set arrays'. length a = Suc k + n)"
  proof (rule Suc.IH)
    show "length (drop 48 rest) = 48 * n" using Suc.prems(1) by simp
    show "length (append_row arrays numbers) = 11"
      using Suc.prems(2) by (simp add: length_append_row)
    show "\<forall>a\<in>set (append_row arrays numbers). length a = Suc k"
      using append_row_lengths [of arrays numbers k] Suc.prems nu by simp
  qed
  then show ?case using step by simp
qed

lemma read_records_partial:
  "length rest mod 48 \<noteq> 0 \<Longrightarrow> read_records L rest arrays = Inl StructError"
proof (induction "length rest" arbitrary: rest arrays rule: less_induct)
  case less
  show ?case
  proof (cases "length rest < 48")
    case True
    then have "length (take 48 rest) \<noteq> 8 + 10 * 4" "take 48 rest \<noteq> []"
      using less.prems by auto
    then have "unpack_qf L 10 (take 48 rest) = Inl StructError" "take 48 rest \<noteq> []"
      unfolding unpack_qf_def by simp_all
    then show ?thesis by (subst read_records.simps) (simp add: value_count_def)
  next
    case False
    obtain numbers where
      step: "read_records L rest arrays = read_records L (drop 48 rest) (append_row arrays numbers)"
      using read_records_step [of rest L arrays] False by auto
    have "length (drop 48 rest) mod 48 \<noteq> 0" using less.prems False
      by (simp add: le_mod_geq)
    moreover have "length (drop 48 rest) < length rest" using False by simp
    ultimately show ?thesis using less.hyps step by simp
  qed
qed

lemma read_dat_short: "length raw < 8 \<Longrightarrow> read_dat L raw = Inl StructError"
  by (simp add: read_dat_def unpack_q_def)

lemma read_dat_partial:
  "8 \<le> length raw \<Longrightarrow> (length raw - 8) mod 48 \<noteq> 0 \<Longrightarrow> read_dat L raw = Inl StructError"
  by (simp add: read_dat_def unpack_q_def read_records_partial)

lemma read_dat_whole:
  assumes "8 \<le> length raw" "(length raw - 8) mod 48 = 0"
  shows "\<exists>arrays. read_dat L raw =
            Inr (Some (of_int (sint (word_rcat (take 8 raw) :: 64 word)) / 1000), arrays) \<and>
          length arrays = 11 \<and> (\<forall>a \<in> set arrays. length a = (length raw - 8) div 48)"
proof -
  let ?n = "(length raw - 8) div 48"
  have len: "length (drop 8 raw) = 48 * ?n" using assms by auto
  obtain arrays where ar: "read_records L (drop 8 raw) (replicate value_count []) = Inr arrays"
    "length arrays = 11" "\<forall>a \<in> set arrays. length a = 0 + ?n"
    using read_records_whole [OF len, of "replicate value_count []" 0 L]
    by (auto simp: value_count_def)
  have "unpack_q (take 8 raw) = Inr (sint (word_rcat (take 8 raw) :: 64 word))"
    using assms(1) by (simp add: unpack_q_def)
  with ar show ?thesis by (simp add: read_dat_def)
qed

text \<open>
  C1 (as amended). For a binary (.dat) file the parser reads the 8-byte header and then
  48-byte records (one big-endian 64-bit integer and ten big-endian singles) until the end
  of the file. When the file is the header followed by whole records, each of the eleven
  channels receives \<open>(file_size - 8) div 48\<close> samples. A trailing partial record is not
  discarded: \<open>struct.unpack\<close> raises on it, as it does on a header of fewer than 8 bytes,
  and the constructor fails with that error.
\<close>

theorem C1_binary_record_count:
  "(length raw < 8 \<longrightarrow> read_dat L raw = Inl StructError) \<and>
   (8 \<le> length raw \<and> (length raw - 8) mod 48 \<noteq> 0 \<longrightarrow>
      read_dat L raw = Inl StructError \<and>
      (endswith fname ''.dat'' \<longrightarrow> init L fname raw text = Inl StructError)) \<and>
   (8 \<le> length raw \<and> (length raw - 8) mod 48 = 0 \<longrightarrow>
      (\<exists>start arrays. read_dat L raw = Inr (start, arrays) \<and> length arrays = 11 \<and>
         (\<forall>a \<in> set arrays. length a = (length raw - 8) div 48)))"
proof (intro conjI impI)
  assume "length raw < 8"
  then show "read_dat L raw = Inl StructError" by (rule read_dat_short)
next
  assume a: "8 \<le> length raw \<and> (length raw - 8) mod 48 \<noteq> 0"
  then show p: "read_dat L raw = Inl StructError" by (simp add: read_dat_partial)
  assume "endswith fname ''.dat''"
  then show "init L fname raw text = Inl StructError" using p by (simp add: init_def)
next
  assume "8 \<le> length raw \<and> (length raw - 8) mod 48 = 0"
  then have "8 \<le> length raw" "(length raw - 8) mod 48 = 0" by simp_all
  from read_dat_whole [OF this, of L]
  show "\<exists>start arrays. read_dat L raw = Inr (start, arrays) \<and> length arrays = 11 \<and>
         (\<forall>a \<in> set arrays. length a = (length raw - 8) div 48)"
    by (elim exE conjE) (intro exI conjI, assumption+)
qed

theorem C1_binary_record_count_witness:
  "read_dat lib0 (replicate 7 0) = Inl StructError \<and>
   read_dat lib0 (replicate 9 0) = Inl StructError \<and>
   init lib0 ''log.dat'' (replicate 9 0) [] = Inl StructError \<and>
   (\<exists>start arrays. read_dat lib0 (replicate 104 0) = Inr (start, arrays) \<and> length arrays = 11 \<and>
      (\<forall>a \<in> set arrays. length a = 2))"
  using C1_binary_record_count [of "replicate 7 0" lib0 "''log.dat''" "[]"]
    C1_binary_record_count [of "replicate 9 0" lib0 "''log.dat''" "[]"]
    C1_binary_record_count [of "replicate 104 0" lib0 "''log.dat''" "[]"]
  by (simp add: endswith_def)

text \<open>The claim as stated fails: a file of the header, one whole record and one more byte
  has \<open>(57 - 8) div 48 = 1\<close>, but the constructor raises instead of keeping one sample.\<close>

theorem C1_partial_record_counterexample:
  "init lib0 ''log.dat'' (replicate 57 0) [] = Inl StructError \<and> (57 - 8) div 48 = (1 :: nat)"
  by (simp add: init_def endswith_def read_dat_partial)

subsection \<open>The constructor\<close>

lemma length_lfilter_run: "length (fst (lfilter_run b a x z)) = length x"
proof (induction x arbitrary: z)
  case Nil
  show ?case by simp
next
  case (Cons v x)
  obtain y z' where st: "lfilter_step b a z v = (y, z')" by (cases "lfilter_step b a z v")
  obtain ys zf where run: "lfilter_run b a x z' = (ys, zf)" by (cases "lfilter_run b a x z'")
  have "length ys = length x" using Cons.IH [of z'] run by simp
  then show ?case using st run by simp
qed

lemma length_lfilter: "length (fst (lfilter b a x zi)) = length x"
  by (simp add: lfilter_def Let_def length_lfilter_run)

lemma index0_Inr: "index0 xs = Inr x \<longleftrightarrow> xs \<noteq> [] \<and> x = xs ! 0"
  by (cases xs) (auto simp: index0_def)

lemma index0_Inl: "index0 xs = Inl e \<longleftrightarrow> xs = [] \<and> e = IndexError"
  by (cases xs) (auto simp: index0_def)

lemma filtered_Inr:
  "filtered L order wn btype x = Inr y \<longleftrightarrow>
     x \<noteq> [] \<and>
     y = fst (lfilter (fst (butter L order wn btype)) (snd (butter L order wn btype)) x
               (map (\<lambda>z. z * x ! 0)
                  (lfilter_zi L (fst (butter L order wn btype)) (snd (butter L order wn btype)))))"
  by (cases x) (auto simp: filtered_def index0_def Let_def split: prod.splits)

lemma filtered_Inl: "filtered L order wn btype x = Inl e \<longleftrightarrow> x = [] \<and> e = IndexError"
  by (cases x) (auto simp: filtered_def index0_def Let_def split: prod.splits)

lemma filtered_length: "filtered L order wn btype x = Inr y \<Longrightarrow> length y = length x"
  by (simp add: filtered_Inr length_lfilter)

lemma derive_Inr:
  assumes "derive L fname start arrays = Inr r"
  shows "values_of r = arrays" "start_unix_timestamp r = start" "filename r = fname"
    "timestamps r = arrays ! 0" "positions r = arrays ! 1" "angles r = arrays ! 2"
    "azimuth r = arrays ! 3" "pitch r = arrays ! 4" "roll r = arrays ! 5"
    "thermistor r = map (\<lambda>x. (x - mean (arrays ! 6)) * 0.02) (arrays ! 6)"
    "spo2 r = arrays ! 7" "pulse_rate r = arrays ! 8" "perfusion_index r = arrays ! 9"
    "mean_spo2_wave r = arrays ! 10" "signal r = arrays ! 1"
    "arrays ! 0 \<noteq> []" "arrays ! 1 \<noteq> []" "arrays ! 6 \<noteq> []"
    "elapsed r = map (\<lambda>t. t / 1000000000 - arrays ! 0 ! 0 / 1000000000) (arrays ! 0)"
  using assms
  by (auto simp: derive_def Let_def index0_Inr filtered_Inr split: sum.splits)

lemma derive_Inr_filtered:
  assumes "derive L fname start arrays = Inr r"
  shows "filtered L 3 0.1 ''low'' (positions r) = Inr (low_pass r)"
    "filtered L 3 0.3 ''high'' (positions r) = Inr (high_pass r)"
    "filtered L 3 0.15 ''low'' (thermistor r) = Inr (thermistor_low_pass r)"
  using assms
  by (auto simp: derive_def Let_def split: sum.splits)

lemma derive_ok:
  assumes "arrays ! 0 \<noteq> []" "arrays ! 1 \<noteq> []" "arrays ! 6 \<noteq> []"
  shows "\<exists>r. derive L fname start arrays = Inr r"
proof -
  obtain t0 where t0: "index0 (arrays ! 0) = Inr t0" using assms(1) by (simp add: index0_Inr)
  let ?th = "map (\<lambda>x. (x - mean (arrays ! 6)) * 0.02) (arrays ! 6)"
  obtain lp where lp: "filtered L 3 0.1 ''low'' (arrays ! 1) = Inr lp"
    using assms(2) by (simp add: filtered_Inr)
  obtain hp where hp: "filtered L 3 0.3 ''high'' (arrays ! 1) = Inr hp"
    using assms(2) by (simp add: filtered_Inr)
  obtain tlp where tlp: "filtered L 3 0.15 ''low'' ?th = Inr tlp"
    using assms(3) by (simp add: filtered_Inr)
  show ?thesis using t0 lp hp tlp by (simp add: derive_def Let_def)
qed

lemma derive_empty:
  "arrays ! 0 = [] \<Longrightarrow> derive L fname start arrays = Inl IndexError"
  by (simp add: derive_def Let_def index0_def)

lemma init_Inr:
  assumes "init L fname raw text = Inr r"
  obtains start arrays where "derive L fname start arrays = Inr r"
    "if endswith fname ''.dat'' then read_dat L raw = Inr (start, arrays)
     else read_text L text = Inr (start, arrays)"
  using assms by (auto simp: init_def split: sum.splits if_splits)


lemma read_dat_Inr:
  assumes "read_dat L raw = Inr (start, arrays)"
  shows "8 \<le> length raw" "(length raw - 8) mod 48 = 0"
    "start = Some (of_int (sint (word_rcat (take 8 raw) :: 64 word)) / 1000)"
    "length arrays = 11" "\<forall>a \<in> set arrays. length a = (length raw - 8) div 48"
proof -
  show 1: "8 \<le> length raw" using assms read_dat_short [of raw L] by (cases "length raw < 8") auto
  show 2: "(length raw - 8) mod 48 = 0" using assms 1 read_dat_partial [of raw L] by auto
  from read_dat_whole [OF 1 2, of L] assms
  show "start = Some (of_int (sint (word_rcat (take 8 raw) :: 64 word)) / 1000)"
    "length arrays = 11" "\<forall>a \<in> set arrays. length a = (length raw - 8) div 48"
    by auto
qed

lemma floats_length: "floats L ss = Inr vs \<Longrightarrow> length vs = length ss"
  by (induction ss arbitrary: vs) (auto split: option.splits sum.splits)

lemma append_row_nth:
  "i < length arrays \<Longrightarrow>
   append_row arrays numbers ! i =
     (if i < length numbers then arrays ! i @ [numbers ! i] else arrays ! i)"
proof (induction arrays numbers arbitrary: i rule: append_row.induct)
  case (1 array arrays v numbers)
  then show ?case by (cases i) auto
qed auto

lemma read_lines_length:
  "read_lines L lines arrays = Inr arrays' \<Longrightarrow> length arrays' = length arrays"
  by (induction lines arbitrary: arrays) (auto simp: length_append_row split: sum.splits)

lemma read_lines_full:
  "\<forall>line \<in> set lines. length arrays \<le> length (split_comma line) \<Longrightarrow>
   \<forall>a \<in> set arrays. length a = k \<Longrightarrow> read_lines L lines arrays = Inr arrays' \<Longrightarrow>
   \<forall>a \<in> set arrays'. length a = k + length lines"
proof (induction lines arbitrary: arrays k)
  case Nil
  then show ?case by simp
next
  case (Cons line lines)
  from Cons.prems(3) obtain numbers where nu: "floats L (split_comma line) = Inr numbers"
    and rest: "read_lines L lines (append_row arrays numbers) = Inr arrays'"
    by (auto split: sum.splits)
  have ln: "length arrays \<le> length numbers" using Cons.prems(1) floats_length [OF nu] by simp
  have "\<forall>a \<in> set arrays'. length a = Suc k + length lines"
  proof (rule Cons.IH [OF _ _ rest])
    show "\<forall>line\<in>set lines. length (append_row arrays numbers) \<le> length (split_comma line)"
      using Cons.prems(1) by (simp add: length_append_row)
    show "\<forall>a\<in>set (append_row arrays numbers). length a = Suc k"
      using append_row_lengths [OF ln Cons.prems(2)] .
  qed
  then show ?case by simp
qed

lemma read_lines_nonempty:
  "read_lines L lines arrays = Inr arrays' \<Longrightarrow> i < length arrays \<Longrightarrow>
   arrays ! i \<noteq> [] \<or> (\<exists>line \<in> set lines. i < length (split_comma line)) \<Longrightarrow>
   arrays' ! i \<noteq> []"
proof (induction lines arbitrary: arrays)
  case Nil
  then show ?case by simp
next
  case (Cons line lines)
  from Cons.prems(1) obtain numbers where nu: "floats L (split_comma line) = Inr numbers"
    and rest: "read_lines L lines (append_row arrays numbers) = Inr arrays'"
    by (auto split: sum.splits)
  have ln: "length numbers = length (split_comma line)" using floats_length [OF nu] .
  have "append_row arrays numbers ! i \<noteq> [] \<or> (\<exists>line \<in> set lines. i < length (split_comma line))"
    using Cons.prems(2,3) ln by (auto simp: append_row_nth)
  moreover have "i < length (append_row arrays numbers)"
    using Cons.prems(2) by (simp add: length_append_row)
  ultimately show ?case using Cons.IH [OF rest] by blast
qed

lemma all_nth_11:
  assumes "length (xs :: 'a list) = 11" "\<forall>a \<in> set xs. P a"
  shows "P (xs ! 0)" "P (xs ! 1)" "P (xs ! 2)" "P (xs ! 3)" "P (xs ! 4)" "P (xs ! 5)"
    "P (xs ! 6)" "P (xs ! 7)" "P (xs ! 8)" "P (xs ! 9)" "P (xs ! 10)"
  using assms by (simp_all add: all_set_conv_all_nth)

lemma derive_channels:
  assumes "derive L fname start arrays = Inr r" "length arrays = 11"
    "\<forall>a \<in> set arrays. length a = n"
  shows "\<forall>c \<in> set (channels r). length c = n"
  using derive_Inr [OF assms(1)] all_nth_11 [OF assms(2,3)]
  by (simp add: channels_def)


text \<open>
  C2 (as amended). After the constructor has returned for a binary file, or for a text file
  each of whose lines has at least eleven fields, the eleven channel sequences have the
  same length.
\<close>

theorem C2_channel_lengths:
  assumes "init L fname raw text = Inr r"
    and "endswith fname ''.dat'' \<or> (\<forall>line \<in> set (splitlines text). 11 \<le> length (split_comma line))"
  shows "\<forall>c \<in> set (channels r). length c = length (timestamps r)"
proof -
  from init_Inr [OF assms(1)] obtain start arrays where
    d: "derive L fname start arrays = Inr r" and
    p: "if endswith fname ''.dat'' then read_dat L raw = Inr (start, arrays)
        else read_text L text = Inr (start, arrays)" by blast
  have "\<exists>n. length arrays = 11 \<and> (\<forall>a \<in> set arrays. length a = n)"
  proof (cases "endswith fname ''.dat''")
    case True
    then show ?thesis using p read_dat_Inr(4,5) [of L raw start arrays] by auto
  next
    case False
    then have rl: "read_lines L (splitlines text) (replicate value_count []) = Inr arrays"
      using p by (auto simp: read_text_def split: sum.splits)
    have full: "\<forall>line \<in> set (splitlines text). 11 \<le> length (split_comma line)"
      using False assms(2) by simp
    have "\<forall>a \<in> set arrays. length a = 0 + length (splitlines text)"
      by (rule read_lines_full [OF _ _ rl]) (use full in \<open>simp_all add: value_count_def\<close>)
    moreover have "length arrays = 11" using read_lines_length [OF rl] by (simp add: value_count_def)
    ultimately show ?thesis by blast
  qed
  then obtain n where n: "length arrays = 11" "\<forall>a \<in> set arrays. length a = n" by blast
  have all: "\<forall>c \<in> set (channels r). length c = n" using derive_channels [OF d n] .
  then have "length (timestamps r) = n" by (simp add: channels_def)
  with all show ?thesis by simp
qed


text \<open>The definitions to unfold when the text path is run on a concrete file.\<close>

lemmas run_text = init_def endswith_def read_text_def splitlines_def is_linebreak_def
  split_comma_def lib0_def digit_strings_def value_count_def derive_def filtered_def
  index0_def lfilter_def lfilter_step_def Let_def mean_def

lemma init_dat_ok:
  assumes "endswith fname ''.dat''" "8 \<le> length raw" "(length raw - 8) mod 48 = 0"
    "0 < (length raw - 8) div 48"
  shows "\<exists>r. init L fname raw text = Inr r"
proof -
  from read_dat_whole [OF assms(2,3), of L] obtain start arrays where
    rd: "read_dat L raw = Inr (start, arrays)" and la: "length arrays = 11"
    and ls: "\<forall>a \<in> set arrays. length a = (length raw - 8) div 48" by blast
  have ne: "\<forall>a \<in> set arrays. a \<noteq> []" using ls assms(4) by auto
  have "arrays ! 0 \<noteq> []" "arrays ! 1 \<noteq> []" "arrays ! 6 \<noteq> []"
    using all_nth_11 [OF la ne] by blast+
  from derive_ok [OF this, of L fname start] show ?thesis
    using rd assms(1) by (simp add: init_def)
qed

lemma init_dat_header_only:
  assumes "endswith fname ''.dat''" "length raw = 8"
  shows "init L fname raw text = Inl IndexError"
proof -
  have "read_records L (drop 8 raw) (replicate value_count []) = Inr (replicate value_count [])"
    using assms(2) by (subst read_records.simps) simp
  then have "\<exists>start. read_dat L raw = Inr (start, replicate value_count [])"
    using assms(2) by (simp add: read_dat_def unpack_q_def)
  then show ?thesis using assms(1)
    by (auto simp: init_def value_count_def derive_empty)
qed

lemma init_text_empty:
  assumes "\<not> endswith fname ''.dat''"
  shows "init L fname raw [] = Inl IndexError"
  using assms by (simp add: init_def read_text_def splitlines_def value_count_def derive_empty)

lemma init_text_ok:
  assumes "\<not> endswith fname ''.dat''" "read_text L text = Inr p"
    "\<exists>line \<in> set (splitlines text). 11 \<le> length (split_comma line)"
  shows "\<exists>r. init L fname raw text = Inr r"
proof -
  obtain start arrays where p: "p = (start, arrays)" by (cases p)
  have rl: "read_lines L (splitlines text) (replicate value_count []) = Inr arrays"
    using assms(2) p by (auto simp: read_text_def split: sum.splits)
  have ne: "arrays ! i \<noteq> []" if "i < 11" for i
  proof (rule read_lines_nonempty [OF rl])
    show "i < length (replicate value_count [])" using that by (simp add: value_count_def)
    show "replicate value_count [] ! i \<noteq> [] \<or>
          (\<exists>line\<in>set (splitlines text). i < length (split_comma line))"
      using assms(3) that by fastforce
  qed
  have "arrays ! 0 \<noteq> []" "arrays ! 1 \<noteq> []" "arrays ! 6 \<noteq> []" by (simp_all add: ne)
  from derive_ok [OF this, of L fname start] show ?thesis
    using assms(1,2) p by (simp add: init_def)
qed


lemma example_text:
  "\<exists>r. init lib0 ''log.txt'' [] ''1,2,3,4,5,6,7,8,9,10,11\<newline>5,2,3,4,5,6,9,8,9,10,11'' = Inr r \<and>
       timestamps r = [1, 5] \<and> positions r = [2, 2] \<and> values_of r ! 6 = [7, 9] \<and>
       thermistor r = [- (1 / 50), 1 / 50] \<and> low_pass r = [2, 2] \<and>
       thermistor_low_pass r = [- (1 / 50), - (3 / 200)]"
  by (simp add: run_text eval_nat_numeral)

theorem C2_channel_lengths_witness:
  "(case init lib0 ''log.dat'' (replicate 104 0) [] of
      Inl e \<Rightarrow> False
    | Inr r \<Rightarrow> \<forall>c \<in> set (channels r). length c = length (timestamps r)) \<and>
   (case init lib0 ''log.txt'' [] ''1,2,3,4,5,6,7,8,9,10,11\<newline>5,2,3,4,5,6,9,8,9,10,11'' of
      Inl e \<Rightarrow> False
    | Inr r \<Rightarrow> \<forall>c \<in> set (channels r). length c = length (timestamps r))"
proof -
  obtain r where r: "init lib0 ''log.dat'' (replicate 104 0) [] = Inr r"
    using init_dat_ok [of "''log.dat''" "replicate 104 0" lib0 "[]"] by (auto simp: endswith_def)
  obtain q where q: "init lib0 ''log.txt'' []
      ''1,2,3,4,5,6,7,8,9,10,11\<newline>5,2,3,4,5,6,9,8,9,10,11'' = Inr q"
    using example_text by blast
  have "\<forall>c \<in> set (channels r). length c = length (timestamps r)"
    by (rule C2_channel_lengths [OF r]) (simp add: endswith_def)
  moreover have "\<forall>c \<in> set (channels q). length c = length (timestamps q)"
    by (rule C2_channel_lengths [OF q])
       (simp add: splitlines_def is_linebreak_def split_comma_def)
  ultimately show ?thesis using r q by simp
qed

text \<open>The claim as stated fails for the text format: \<open>zip\<close> stops at the shorter sequence,
  so a line of seven fields extends the first seven channels only, and the constructor
  still returns.\<close>

theorem C2_short_line_counterexample:
  "\<not> isl (init lib0 ''log.txt'' [] ''1,2,3,4,5,6,7,8,9,10,11\<newline>1,2,3,4,5,6,7'') \<and>
   timestamps (projr (init lib0 ''log.txt'' [] ''1,2,3,4,5,6,7,8,9,10,11\<newline>1,2,3,4,5,6,7''))
     = [1, 1] \<and>
   spo2 (projr (init lib0 ''log.txt'' [] ''1,2,3,4,5,6,7,8,9,10,11\<newline>1,2,3,4,5,6,7''))
     = [8]"
  by (simp add: run_text eval_nat_numeral)

lemma init_dat_start:
  assumes "init L fname raw text = Inr r" "endswith fname ''.dat''"
  shows "8 \<le> length raw \<and>
         start_unix_timestamp r = Some (of_int (sint (word_rcat (take 8 raw) :: 64 word)) / 1000)"
proof -
  from init_Inr [OF assms(1)] obtain start arrays where
    d: "derive L fname start arrays = Inr r" and
    p: "if endswith fname ''.dat'' then read_dat L raw = Inr (start, arrays)
        else read_text L text = Inr (start, arrays)" by blast
  have rd: "read_dat L raw = Inr (start, arrays)" using p assms(2) by simp
  show ?thesis using read_dat_Inr(1,3) [OF rd] derive_Inr(2) [OF d] by simp
qed

text \<open>
  C9 (as amended). For a binary file on which the constructor returns, the start timestamp
  is read from the first 8 bytes of the file as a signed big-endian 64-bit integer, and the
  object holds that integer divided by 1000: the header counts milliseconds, the object
  holds seconds since the epoch.
\<close>

theorem C9_start_timestamp:
  assumes "init L fname raw text = Inr r" "endswith fname ''.dat''"
  shows "8 \<le> length raw \<and>
         start_unix_timestamp r = Some (of_int (sint (word_rcat (take 8 raw) :: 64 word)) / 1000)"
  using assms by (rule init_dat_start)

theorem C9_start_timestamp_witness:
  "case init lib0 ''log.dat'' ([0, 0, 0, 0, 0, 0, 3, 232] @ replicate 48 0) [] of
     Inl e \<Rightarrow> False
   | Inr r \<Rightarrow> start_unix_timestamp r =
       Some (of_int (sint (word_rcat [0, 0, 0, 0, 0, 0, 3, 232 :: byte] :: 64 word)) / 1000)"
proof -
  obtain r where r: "init lib0 ''log.dat'' ([0, 0, 0, 0, 0, 0, 3, 232] @ replicate 48 0) [] = Inr r"
    using init_dat_ok [of "''log.dat''" "[0, 0, 0, 0, 0, 0, 3, 232] @ replicate 48 0" lib0 "[]"]
    by (auto simp: endswith_def)
  show ?thesis using C9_start_timestamp [OF r] r by (simp add: endswith_def)
qed

text \<open>The claim as stated fails: a header of 1000 (milliseconds) leaves 1 in the object,
  not 1000.\<close>

theorem C9_milliseconds_counterexample:
  "sint (word_rcat [0, 0, 0, 0, 0, 0, 3, 232 :: byte] :: 64 word) = 1000 \<and>
   \<not> isl (init lib0 ''log.dat'' ([0, 0, 0, 0, 0, 0, 3, 232] @ replicate 48 0) []) \<and>
   start_unix_timestamp
     (projr (init lib0 ''log.dat'' ([0, 0, 0, 0, 0, 0, 3, 232] @ replicate 48 0) [])) = Some 1"
proof -
  obtain r where r: "init lib0 ''log.dat'' ([0, 0, 0, 0, 0, 0, 3, 232] @ replicate 48 0) [] = Inr r"
    using init_dat_ok [of "''log.dat''" "[0, 0, 0, 0, 0, 0, 3, 232] @ replicate 48 0" lib0 "[]"]
    by (auto simp: endswith_def)
  have w: "sint (word_rcat [0, 0, 0, 0, 0, 0, 3, 232 :: byte] :: 64 word) = 1000"
    by (simp add: word_rcat_def)
  have "start_unix_timestamp r = Some 1"
    using init_dat_start [OF r] w by (simp add: endswith_def)
  then show ?thesis using r w by simp
qed

text \<open>
  C10. The constructor needs at least one complete record. On a binary file that is the
  8-byte header alone, and on an empty text file, it fails with IndexError at the first
  element of the empty timestamp sequence. With at least one complete record (a binary
  file of the header and one or more whole records; a text file that parses and has a
  line of at least eleven fields) the accesses to the first timestamp, position and
  thermistor sample succeed and the constructor returns.
\<close>

theorem C10_first_element_access:
  "(endswith fname ''.dat'' \<and> length raw = 8 \<longrightarrow> init L fname raw text = Inl IndexError) \<and>
   (\<not> endswith fname ''.dat'' \<and> text = [] \<longrightarrow> init L fname raw text = Inl IndexError) \<and>
   (endswith fname ''.dat'' \<and> 8 \<le> length raw \<and> (length raw - 8) mod 48 = 0 \<and>
      0 < (length raw - 8) div 48 \<longrightarrow> (\<exists>r. init L fname raw text = Inr r)) \<and>
   (\<not> endswith fname ''.dat'' \<and> (\<exists>p. read_text L text = Inr p) \<and>
      (\<exists>line \<in> set (splitlines text). 11 \<le> length (split_comma line)) \<longrightarrow>
      (\<exists>r. init L fname raw text = Inr r))"
proof (intro conjI impI)
  assume "endswith fname ''.dat'' \<and> length raw = 8"
  then show "init L fname raw text = Inl IndexError" by (simp add: init_dat_header_only)
next
  assume "\<not> endswith fname ''.dat'' \<and> text = []"
  then show "init L fname raw text = Inl IndexError" by (simp add: init_text_empty)
next
  assume "endswith fname ''.dat'' \<and> 8 \<le> length raw \<and> (length raw - 8) mod 48 = 0 \<and>
      0 < (length raw - 8) div 48"
  then show "\<exists>r. init L fname raw text = Inr r" by (simp add: init_dat_ok)
next
  assume a: "\<not> endswith fname ''.dat'' \<and> (\<exists>p. read_text L text = Inr p) \<and>
      (\<exists>line \<in> set (splitlines text). 11 \<le> length (split_comma line))"
  then obtain p where "read_text L text = Inr p" by blast
  with a show "\<exists>r. init L fname raw text = Inr r"
    by (intro init_text_ok [of fname L "text" p raw]) simp_all
qed

theorem C10_first_element_access_witness:
  "init lib0 ''log.dat'' (replicate 8 0) [] = Inl IndexError \<and>
   init lib0 ''log.txt'' [] [] = Inl IndexError \<and>
   (\<exists>r. init lib0 ''log.dat'' (replicate 56 0) [] = Inr r) \<and>
   (\<exists>r. init lib0 ''log.txt'' [] ''1,2,3,4,5,6,7,8,9,10,11'' = Inr r)"
proof -
  have t: "\<exists>p. read_text lib0 ''1,2,3,4,5,6,7,8,9,10,11'' = Inr p"
    by (simp add: read_text_def splitlines_def is_linebreak_def split_comma_def lib0_def
        digit_strings_def value_count_def)
  have l: "\<exists>line \<in> set (splitlines ''1,2,3,4,5,6,7,8,9,10,11''). 11 \<le> length (split_comma line)"
    by (simp add: splitlines_def is_linebreak_def split_comma_def)
  show ?thesis
    using C10_first_element_access [of "''log.dat''" "replicate 8 0" lib0 "[]"]
      C10_first_element_access [of "''log.txt''" "[]" lib0 "[]"]
      C10_first_element_access [of "''log.dat''" "replicate 56 0" lib0 "[]"]
      C10_first_element_access [of "''log.txt''" "[]" lib0 "''1,2,3,4,5,6,7,8,9,10,11''"]
      t l
    by (simp add: endswith_def)
qed

subsection \<open>Derived signals\<close>

lemma init_derived:
  assumes "init L fname raw text = Inr r"
  shows "timestamps r \<noteq> []" "positions r \<noteq> []" "thermistor r \<noteq> []"
    "elapsed r = map (\<lambda>t. t / 1000000000 - timestamps r ! 0 / 1000000000) (timestamps r)"
    "thermistor r = map (\<lambda>x. (x - mean (values_of r ! 6)) * 0.02) (values_of r ! 6)"
    "filtered L 3 0.1 ''low'' (positions r) = Inr (low_pass r)"
    "filtered L 3 0.3 ''high'' (positions r) = Inr (high_pass r)"
    "filtered L 3 0.15 ''low'' (thermistor r) = Inr (thermistor_low_pass r)"
proof -
  from init_Inr [OF assms] obtain start arrays where
    d: "derive L fname start arrays = Inr r" by blast
  note f = derive_Inr [OF d]
  show "timestamps r \<noteq> []" "positions r \<noteq> []" "thermistor r \<noteq> []"
    using f by simp_all
  show "elapsed r = map (\<lambda>t. t / 1000000000 - timestamps r ! 0 / 1000000000) (timestamps r)"
    using f by simp
  show "thermistor r = map (\<lambda>x. (x - mean (values_of r ! 6)) * 0.02) (values_of r ! 6)"
    using f by simp
  show "filtered L 3 0.1 ''low'' (positions r) = Inr (low_pass r)"
    "filtered L 3 0.3 ''high'' (positions r) = Inr (high_pass r)"
    "filtered L 3 0.15 ''low'' (thermistor r) = Inr (thermistor_low_pass r)"
    using derive_Inr_filtered [OF d] by simp_all
qed




lemma sum_list_centred:
  fixes xs :: "real list"
  assumes "xs \<noteq> []"
  shows "sum_list (map (\<lambda>x. (x - mean xs) * c) xs) = 0"
proof -
  have "sum_list (map (\<lambda>x. (x - m) * c) xs) = (sum_list xs - of_nat (length xs) * m) * c" for m
    by (induction xs) (simp_all add: algebra_simps)
  moreover have "of_nat (length xs) * mean xs = sum_list xs"
    using assms by (simp add: mean_def)
  ultimately show ?thesis by simp
qed

text \<open>
  C7. In every constructed object the thermistor channel is replaced by its normalisation,
  the raw channel (the seventh array) minus its sample mean, times 0.02, which therefore
  sums to 0; and the thermistor low-pass signal is the output of \<open>lfilter\<close> on that
  normalised signal with the coefficients \<open>butter(3, 0.15, 'low')\<close> and the initial
  conditions \<open>lfilter_zi(b, a)\<close> scaled by the first normalised sample.
\<close>

theorem C7_thermistor_low_pass:
  assumes "init L fname raw text = Inr r"
  shows "thermistor r = map (\<lambda>x. (x - mean (values_of r ! 6)) * 0.02) (values_of r ! 6) \<and>
         sum_list (thermistor r) = 0 \<and>
         thermistor_low_pass r =
           (case butter L 3 0.15 ''low'' of
              (b, a) \<Rightarrow> fst (lfilter b a (thermistor r)
                               (map (\<lambda>z. z * thermistor r ! 0) (lfilter_zi L b a))))"
proof -
  note d = init_derived [OF assms]
  have th: "thermistor r = map (\<lambda>x. (x - mean (values_of r ! 6)) * 0.02) (values_of r ! 6)"
    by (rule d(5))
  have "values_of r ! 6 \<noteq> []" using d(3) th by auto
  then have "sum_list (thermistor r) = 0" by (subst th) (rule sum_list_centred)
  moreover have "thermistor_low_pass r =
           (case butter L 3 0.15 ''low'' of
              (b, a) \<Rightarrow> fst (lfilter b a (thermistor r)
                               (map (\<lambda>z. z * thermistor r ! 0) (lfilter_zi L b a))))"
    using d(8) by (simp add: filtered_Inr split: prod.splits)
  ultimately show ?thesis using th by blast
qed

theorem C7_thermistor_low_pass_witness:
  "case init lib0 ''log.txt'' [] ''1,2,3,4,5,6,7,8,9,10,11\<newline>5,2,3,4,5,6,9,8,9,10,11'' of
     Inl e \<Rightarrow> False
   | Inr r \<Rightarrow> values_of r ! 6 = [7, 9] \<and> thermistor r = [- (1 / 50), 1 / 50] \<and>
       thermistor_low_pass r = [- (1 / 50), - (3 / 200)] \<and>
       sum_list (thermistor r) = 0 \<and>
       thermistor_low_pass r =
         (case butter lib0 3 0.15 ''low'' of
            (b, a) \<Rightarrow> fst (lfilter b a (thermistor r)
                             (map (\<lambda>z. z * thermistor r ! 0) (lfilter_zi lib0 b a))))"
proof -
  obtain r where r: "init lib0 ''log.txt'' []
      ''1,2,3,4,5,6,7,8,9,10,11\<newline>5,2,3,4,5,6,9,8,9,10,11'' = Inr r"
    and v: "values_of r ! 6 = [7, 9]" "thermistor r = [- (1 / 50), 1 / 50]"
      "thermistor_low_pass r = [- (1 / 50), - (3 / 200)]"
    using example_text by blast
  have "sum_list (thermistor r) = 0 \<and>
       thermistor_low_pass r =
         (case butter lib0 3 0.15 ''low'' of
            (b, a) \<Rightarrow> fst (lfilter b a (thermistor r)
                             (map (\<lambda>z. z * thermistor r ! 0) (lfilter_zi lib0 b a))))"
    using C7_thermistor_low_pass [OF r] by blast
  then show ?thesis using r v by simp
qed

text \<open>
  C8. Each of the three filter applications of the constructor (positions at low-pass
  cutoff 0.1, positions at high-pass cutoff 0.3, normalised thermistor at low-pass cutoff
  0.15) returns a sequence as long as its input; so does \<open>lfilter\<close> on any input.
\<close>

theorem C8_filter_lengths:
  assumes "init L fname raw text = Inr r"
  shows "filtered L 3 0.1 ''low'' (positions r) = Inr (low_pass r) \<and>
         length (low_pass r) = length (positions r) \<and>
         filtered L 3 0.3 ''high'' (positions r) = Inr (high_pass r) \<and>
         length (high_pass r) = length (positions r) \<and>
         filtered L 3 0.15 ''low'' (thermistor r) = Inr (thermistor_low_pass r) \<and>
         length (thermistor_low_pass r) = length (thermistor r) \<and>
         length (fst (lfilter b a x zi)) = length x"
  using init_derived(6,7,8) [OF assms] by (simp add: filtered_length length_lfilter)

theorem C8_filter_lengths_witness:
  "case init lib0 ''log.txt'' [] ''1,2,3,4,5,6,7,8,9,10,11\<newline>5,2,3,4,5,6,9,8,9,10,11'' of
     Inl e \<Rightarrow> False
   | Inr r \<Rightarrow> length (positions r) = 2 \<and> length (low_pass r) = 2 \<and>
       length (high_pass r) = 2 \<and> length (thermistor_low_pass r) = 2"
proof -
  obtain r where r: "init lib0 ''log.txt'' []
      ''1,2,3,4,5,6,7,8,9,10,11\<newline>5,2,3,4,5,6,9,8,9,10,11'' = Inr r"
    and v: "positions r = [2, 2]" "thermistor r = [- (1 / 50), 1 / 50]"
    using example_text by blast
  show ?thesis using C8_filter_lengths [OF r, of "[]" "[]" "[]" "[]"] r v by simp
qed

subsection \<open>Windows\<close>

declare py_range.simps [simp del]

lemma py_range_Nil: "py_range start stop step = [] \<longleftrightarrow> \<not> (start < stop \<and> 0 < step)"
  by (subst py_range.simps) simp

lemma py_range_Cons:
  "start < stop \<Longrightarrow> 0 < step \<Longrightarrow>
   py_range start stop step = start # py_range (start + step) stop step"
  by (subst py_range.simps) simp


lemma py_range_bounds:
  "p \<in> set (py_range start stop step) \<Longrightarrow> start \<le> p \<and> p < stop"
proof (induction start stop step rule: py_range.induct)
  case (1 start stop step)
  show ?case
  proof (cases "start < stop \<and> 0 < step")
    case True
    then have "p = start \<or> p \<in> set (py_range (start + step) stop step)"
      using "1.prems" by (simp add: py_range_Cons)
    then show ?thesis using "1.IH" True by auto
  next
    case False
    then show ?thesis using "1.prems" by (simp add: py_range_Nil [THEN iffD2])
  qed
qed




subsection \<open>The rows of the report\<close>

lemma init_dat_lengths:
  assumes "init L fname raw text = Inr r" "endswith fname ''.dat''"
  shows "\<forall>c \<in> set (channels r). length c = (length raw - 8) div 48"
proof -
  from init_Inr [OF assms(1)] obtain start arrays where
    d: "derive L fname start arrays = Inr r" and
    p: "if endswith fname ''.dat'' then read_dat L raw = Inr (start, arrays)
        else read_text L text = Inr (start, arrays)" by blast
  have rd: "read_dat L raw = Inr (start, arrays)" using p assms(2) by simp
  show ?thesis using derive_channels [OF d read_dat_Inr(4,5) [OF rd]] .
qed

lemma render_rows_ok:
  assumes "start_unix_timestamp data = Some s" "\<forall>p \<in> set idxs. p < length (elapsed data)"
    "\<forall>p \<in> set idxs. fromtimestamp L (s + elapsed data ! p) \<noteq> None"
  shows "\<exists>rows. render_rows L data idxs = Inr rows \<and>
           map w_x rows = map (\<lambda>p. region p (elapsed data)) idxs \<and>
           map w_y rows = map (\<lambda>p. region p (map uminus (positions data))) idxs \<and>
           map w_thermistor_low_pass rows = map (\<lambda>p. region p (thermistor_low_pass data)) idxs"
  using assms(2,3)
proof (induction idxs)
  case Nil
  show ?case by simp
next
  case (Cons p idxs)
  then obtain rows where rows: "render_rows L data idxs = Inr rows"
    "map w_x rows = map (\<lambda>p. region p (elapsed data)) idxs"
    "map w_y rows = map (\<lambda>p. region p (map uminus (positions data))) idxs"
    "map w_thermistor_low_pass rows = map (\<lambda>p. region p (thermistor_low_pass data)) idxs"
    by auto
  have "p < length (elapsed data)" using Cons.prems by simp
  moreover obtain label where "fromtimestamp L (s + elapsed data ! p) = Some label"
    using Cons.prems by auto
  ultimately obtain w where w: "render_window L data p = Inr w"
    "w_x w = region p (elapsed data)"
    "w_y w = region p (map uminus (positions data))"
    "w_thermistor_low_pass w = region p (thermistor_low_pass data)"
    using assms(1) by (simp add: render_window_def)
  show ?case using rows w by simp
qed

lemma process_files_dat:
  assumes "init L fname raw text = Inr r" "endswith fname ''.dat''"
    "\<forall>p \<in> set (py_range 0 (length (positions r)) max_data_points).
       fromtimestamp L (the (start_unix_timestamp r) + elapsed r ! p) \<noteq> None"
  shows "\<exists>rows. process_files L fname raw text = Inr rows \<and>
           map w_x rows = map (\<lambda>p. region p (elapsed r))
                            (py_range 0 (length (elapsed r)) max_data_points) \<and>
           map w_y rows = map (\<lambda>p. region p (map uminus (positions r)))
                            (py_range 0 (length (positions r)) max_data_points) \<and>
           map w_thermistor_low_pass rows = map (\<lambda>p. region p (thermistor_low_pass r))
                            (py_range 0 (length (thermistor_low_pass r)) max_data_points) \<and>
           length (elapsed r) = (length raw - 8) div 48 \<and>
           length (positions r) = (length raw - 8) div 48 \<and>
           length (thermistor_low_pass r) = (length raw - 8) div 48"
proof -
  note d = init_derived [OF assms(1)]
  have ch: "\<forall>c \<in> set (channels r). length c = (length raw - 8) div 48"
    by (rule init_dat_lengths [OF assms(1,2)])
  have lt: "length (timestamps r) = (length raw - 8) div 48"
    and lp: "length (positions r) = (length raw - 8) div 48"
    and lth: "length (thermistor r) = (length raw - 8) div 48"
    using ch by (simp_all add: channels_def)
  have le: "length (elapsed r) = (length raw - 8) div 48" using lt by (subst d(4)) simp
  have ltl: "length (thermistor_low_pass r) = (length raw - 8) div 48"
    using filtered_length [OF d(8)] lth by simp
  obtain s where s: "start_unix_timestamp r = Some s"
    using init_dat_start [OF assms(1,2)] by blast
  have "\<forall>p \<in> set (py_range 0 (length (map uminus (positions r))) max_data_points).
          p < length (elapsed r)"
  proof
    fix p assume "p \<in> set (py_range 0 (length (map uminus (positions r))) max_data_points)"
    from py_range_bounds [OF this] show "p < length (elapsed r)" using le lp by simp
  qed
  moreover have "\<forall>p \<in> set (py_range 0 (length (map uminus (positions r))) max_data_points).
          fromtimestamp L (s + elapsed r ! p) \<noteq> None"
    using assms(3) s by simp
  ultimately show ?thesis
    using render_rows_ok [OF s, of "py_range 0 (length (map uminus (positions r))) max_data_points" L]
      assms(1) le lp ltl by (simp add: process_files_def)
qed





subsection \<open>Axis limits\<close>

lemma ylim_all_zero: "\<forall>v \<in> set vals. v = 0 \<Longrightarrow> set_non_zero_ylim vals = (0, 1)"
  by (simp add: set_non_zero_ylim_def Let_def filter_empty_conv)

lemma ylim_some_non_zero:
  assumes "\<exists>v \<in> set vals. v \<noteq> 0"
  shows "set_non_zero_ylim vals =
    (Min (set (filter (\<lambda>v. v \<noteq> 0) vals)) -
       0.05 * max (Max (set (filter (\<lambda>v. v \<noteq> 0) vals)) - Min (set (filter (\<lambda>v. v \<noteq> 0) vals))) 0.1,
     Max (set (filter (\<lambda>v. v \<noteq> 0) vals)) +
       0.05 * max (Max (set (filter (\<lambda>v. v \<noteq> 0) vals)) - Min (set (filter (\<lambda>v. v \<noteq> 0) vals))) 0.1)"
proof -
  have "filter (\<lambda>v. v \<noteq> 0) vals \<noteq> []" using assms by (simp add: filter_empty_conv)
  then show ?thesis by (simp add: set_non_zero_ylim_def Let_def max.commute mult.commute)
qed

lemma ylim_constant:
  assumes "\<exists>u \<in> set vals. u \<noteq> 0" "\<forall>u \<in> set vals. u \<noteq> 0 \<longrightarrow> u = v"
  shows "set_non_zero_ylim vals = (v - 0.005, v + 0.005)"
proof -
  have "set (filter (\<lambda>v. v \<noteq> 0) vals) = {v}" using assms by auto
  then show ?thesis using ylim_some_non_zero [OF assms(1)] by simp
qed

lemma render_rows_ylim:
  "render_rows L data idxs = Inr rows \<Longrightarrow>
   \<forall>w \<in> set rows.
     ylim_pulse_rate w = set_non_zero_ylim (w_pulse_rate w) \<and>
     ylim_spo2 w = set_non_zero_ylim (w_spo2 w) \<and>
     ylim_perfusion_index w = set_non_zero_ylim (w_perfusion_index w) \<and>
     ylim_mean_spo2_wave w = set_non_zero_ylim (w_mean_spo2_wave w)"
proof (induction idxs arbitrary: rows)
  case Nil
  then show ?case by simp
next
  case (Cons p idxs)
  from Cons.prems obtain w ws where w: "render_window L data p = Inr w"
    and ws: "render_rows L data idxs = Inr ws" and rows: "rows = w # ws"
    by (auto split: sum.splits)
  have "ylim_pulse_rate w = set_non_zero_ylim (w_pulse_rate w) \<and>
     ylim_spo2 w = set_non_zero_ylim (w_spo2 w) \<and>
     ylim_perfusion_index w = set_non_zero_ylim (w_perfusion_index w) \<and>
     ylim_mean_spo2_wave w = set_non_zero_ylim (w_mean_spo2_wave w)"
    using w by (auto simp: render_window_def split: if_splits option.splits)
  then show ?case using Cons.IH [OF ws] rows by simp
qed

lemma process_files_ylim:
  assumes "process_files L fname raw text = Inr rows"
  shows "\<forall>w \<in> set rows.
     ylim_pulse_rate w = set_non_zero_ylim (w_pulse_rate w) \<and>
     ylim_spo2 w = set_non_zero_ylim (w_spo2 w) \<and>
     ylim_perfusion_index w = set_non_zero_ylim (w_perfusion_index w) \<and>
     ylim_mean_spo2_wave w = set_non_zero_ylim (w_mean_spo2_wave w)"
proof -
  from assms obtain data where
    "render_rows L data (py_range 0 (length (map uminus (positions data))) max_data_points)
       = Inr rows"
    by (auto simp: process_files_def split: sum.splits)
  then show ?thesis by (rule render_rows_ylim)
qed

text \<open>
  C5. In every row of the report the limits of the four autoscaled channels (pulse rate,
  SpO2, perfusion index, mean SpO2 wave) are those of \<open>set_non_zero_ylim\<close> on the window
  of the channel. \<open>set_non_zero_ylim\<close> leaves the zero samples out before it takes the
  minimum and the maximum. When every sample of the window is zero the limits are
  \<open>[0, 1]\<close>; otherwise they are \<open>[min - margin, max + margin]\<close> with
  \<open>margin = 0.05 * max(max - min, 0.1)\<close>. A window whose non-zero samples all equal \<open>v\<close>,
  in particular a window of constant non-zero value \<open>v\<close>, gets \<open>[v - 0.005, v + 0.005]\<close>.
\<close>

theorem C5_ylim:
  "(process_files L fname raw text = Inr rows \<longrightarrow>
      (\<forall>w \<in> set rows.
         ylim_pulse_rate w = set_non_zero_ylim (w_pulse_rate w) \<and>
         ylim_spo2 w = set_non_zero_ylim (w_spo2 w) \<and>
         ylim_perfusion_index w = set_non_zero_ylim (w_perfusion_index w) \<and>
         ylim_mean_spo2_wave w = set_non_zero_ylim (w_mean_spo2_wave w))) \<and>
   ((\<forall>u \<in> set vals. u = 0) \<longrightarrow> set_non_zero_ylim vals = (0, 1)) \<and>
   ((\<exists>u \<in> set vals. u \<noteq> 0) \<longrightarrow>
      (let non_zero = filter (\<lambda>u. u \<noteq> 0) vals;
           lo = Min (set non_zero); hi = Max (set non_zero);
           margin = 0.05 * max (hi - lo) 0.1
       in set_non_zero_ylim vals = (lo - margin, hi + margin))) \<and>
   ((\<exists>u \<in> set vals. u \<noteq> 0) \<and> (\<forall>u \<in> set vals. u \<noteq> 0 \<longrightarrow> u = v) \<longrightarrow>
      set_non_zero_ylim vals = (v - 0.005, v + 0.005))"
  using ylim_all_zero [of vals] ylim_some_non_zero [of vals] ylim_constant [of vals v]
    process_files_ylim [of L fname raw "text" rows]
  by (simp add: Let_def)

theorem C5_ylim_witness:
  "set_non_zero_ylim [0, 0] = (0, 1) \<and>
   set_non_zero_ylim [0, 3, 5, 0] = (2.9, 5.1) \<and>
   set_non_zero_ylim [7, 7, 7] = (6.995, 7.005) \<and>
   (case process_files lib0 ''log.dat'' (replicate 56 0) [] of
      Inl e \<Rightarrow> False
    | Inr rows \<Rightarrow> rows \<noteq> [] \<and>
        (\<forall>w \<in> set rows.
           ylim_pulse_rate w = set_non_zero_ylim (w_pulse_rate w) \<and>
           ylim_spo2 w = set_non_zero_ylim (w_spo2 w) \<and>
           ylim_perfusion_index w = set_non_zero_ylim (w_perfusion_index w) \<and>
           ylim_mean_spo2_wave w = set_non_zero_ylim (w_mean_spo2_wave w)))"
proof -
  obtain r where r: "init lib0 ''log.dat'' (replicate 56 0) [] = Inr r"
    using init_dat_ok [of "''log.dat''" "replicate 56 0" lib0 "[]"] by (auto simp: endswith_def)
  have e: "endswith ''log.dat'' ''.dat''" by (simp add: endswith_def)
  have f: "\<forall>p \<in> set (py_range 0 (length (positions r)) max_data_points).
       fromtimestamp lib0 (the (start_unix_timestamp r) + elapsed r ! p) \<noteq> None"
    by (simp add: lib0_def)
  from process_files_dat [OF r e f] obtain rows where
    rows: "process_files lib0 ''log.dat'' (replicate 56 0) [] = Inr rows"
    and x: "map w_x rows = map (\<lambda>p. region p (elapsed r))
                            (py_range 0 (length (elapsed r)) max_data_points)"
    and l: "length (elapsed r) = (length (replicate 56 (0 :: byte)) - 8) div 48"
    by (elim exE conjE) simp
  have "map w_x rows \<noteq> []"
    unfolding x using l by (simp add: py_range_Nil max_data_points_def)
  then have ne: "rows \<noteq> []" by auto
  show ?thesis
    using C5_ylim [of lib0 "''log.dat''" "replicate 56 0" "[]" rows "[0, 0]" 0]
      C5_ylim [of lib0 "''log.dat''" "replicate 56 0" "[]" rows "[0, 3, 5, 0]" 0]
      C5_ylim [of lib0 "''log.dat''" "replicate 56 0" "[]" rows "[7, 7, 7]" 7] rows ne
    by (simp add: Let_def)
qed

subsection \<open>Malformed text\<close>

lemma floats_Inr_all: "floats L ss = Inr vs \<Longrightarrow> \<forall>s \<in> set ss. float_of L s \<noteq> None"
  by (induction ss arbitrary: vs) (auto split: option.splits sum.splits)

lemma floats_all_ok: "\<forall>s \<in> set ss. float_of L s \<noteq> None \<Longrightarrow> \<exists>vs. floats L ss = Inr vs"
  by (induction ss) auto

lemma floats_first_bad:
  "\<forall>t \<in> set fs. float_of L t \<noteq> None \<Longrightarrow> float_of L s = None \<Longrightarrow>
   floats L (fs @ s # gs) = Inl (ValueError s)"
  by (induction fs) auto

lemma floats_bad:
  "\<exists>s \<in> set ss. float_of L s = None \<Longrightarrow>
   \<exists>s \<in> set ss. float_of L s = None \<and> floats L ss = Inl (ValueError s)"
proof (induction ss)
  case Nil
  then show ?case by simp
next
  case (Cons a ss)
  show ?case
  proof (cases "float_of L a")
    case None
    then show ?thesis by simp
  next
    case (Some v)
    then have "\<exists>s \<in> set ss. float_of L s = None" using Cons.prems by auto
    from Cons.IH [OF this] obtain s where "s \<in> set ss" "float_of L s = None"
      "floats L ss = Inl (ValueError s)" by blast
    then show ?thesis using Some by auto
  qed
qed

lemma read_lines_first_bad:
  "\<forall>l \<in> set pre. \<forall>t \<in> set (split_comma l). float_of L t \<noteq> None \<Longrightarrow>
   floats L (split_comma line) = Inl e \<Longrightarrow>
   read_lines L (pre @ line # post) arrays = Inl e"
proof (induction pre arbitrary: arrays)
  case Nil
  then show ?case by simp
next
  case (Cons l pre)
  then obtain vs where "floats L (split_comma l) = Inr vs"
    using floats_all_ok [of "split_comma l" L] by auto
  then show ?case using Cons by simp
qed

lemma read_lines_bad:
  "\<exists>line \<in> set lines. \<exists>s \<in> set (split_comma line). float_of L s = None \<Longrightarrow>
   \<exists>line \<in> set lines. \<exists>s \<in> set (split_comma line).
      float_of L s = None \<and> read_lines L lines arrays = Inl (ValueError s)"
proof (induction lines arbitrary: arrays)
  case Nil
  then show ?case by simp
next
  case (Cons l lines)
  show ?case
  proof (cases "\<exists>s \<in> set (split_comma l). float_of L s = None")
    case True
    from floats_bad [OF this] show ?thesis by auto
  next
    case False
    then obtain vs where vs: "floats L (split_comma l) = Inr vs"
      using floats_all_ok [of "split_comma l" L] by auto
    have "\<exists>line \<in> set lines. \<exists>s \<in> set (split_comma line). float_of L s = None"
      using Cons.prems False by auto
    from Cons.IH [OF this, of "append_row arrays vs"] show ?thesis using vs by auto
  qed
qed

lemma init_text_Inl:
  "\<not> endswith fname ''.dat'' \<Longrightarrow>
   read_lines L (splitlines text) (replicate value_count []) = Inl e \<Longrightarrow>
   init L fname raw text = Inl e \<and> process_files L fname raw text = Inl e"
  by (simp add: init_def process_files_def read_text_def)

text \<open>
  C3 (as amended). For a text-format input with a line that has a field \<open>float()\<close>
  rejects, the constructor fails with the ValueError of \<open>float()\<close>, which carries the text
  of the offending field: the first rejected field of the first line that has one. The
  error holds no record index. \<open>process_files\<close> catches nothing, so the run ends with
  that error.
\<close>

theorem C3_text_parse_error:
  assumes "\<not> endswith fname ''.dat''"
  shows
   "((\<exists>line \<in> set (splitlines text). \<exists>s \<in> set (split_comma line). float_of L s = None) \<longrightarrow>
      (\<exists>line \<in> set (splitlines text). \<exists>s \<in> set (split_comma line). float_of L s = None \<and>
         init L fname raw text = Inl (ValueError s) \<and>
         process_files L fname raw text = Inl (ValueError s))) \<and>
    (splitlines text = pre @ line # post \<and>
     (\<forall>l \<in> set pre. \<forall>t \<in> set (split_comma l). float_of L t \<noteq> None) \<and>
     split_comma line = fs @ s # gs \<and> (\<forall>t \<in> set fs. float_of L t \<noteq> None) \<and>
     float_of L s = None \<longrightarrow>
       init L fname raw text = Inl (ValueError s) \<and>
       process_files L fname raw text = Inl (ValueError s))"
proof (rule conjI; rule impI)
  assume "\<exists>line \<in> set (splitlines text). \<exists>s \<in> set (split_comma line). float_of L s = None"
  from read_lines_bad [OF this, of "replicate value_count []"]
  obtain line s where "line \<in> set (splitlines text)" "s \<in> set (split_comma line)"
    "float_of L s = None"
    "read_lines L (splitlines text) (replicate value_count []) = Inl (ValueError s)"
    by blast
  then show "\<exists>line \<in> set (splitlines text). \<exists>s \<in> set (split_comma line). float_of L s = None \<and>
         init L fname raw text = Inl (ValueError s) \<and>
         process_files L fname raw text = Inl (ValueError s)"
    using init_text_Inl [OF assms] by blast
next
  assume a: "splitlines text = pre @ line # post \<and>
     (\<forall>l \<in> set pre. \<forall>t \<in> set (split_comma l). float_of L t \<noteq> None) \<and>
     split_comma line = fs @ s # gs \<and> (\<forall>t \<in> set fs. float_of L t \<noteq> None) \<and>
     float_of L s = None"
  then have "floats L (split_comma line) = Inl (ValueError s)"
    using floats_first_bad [of fs L s gs] by simp
  then have "read_lines L (splitlines text) (replicate value_count []) = Inl (ValueError s)"
    using a read_lines_first_bad [of pre L line "ValueError s" post] by simp
  then show "init L fname raw text = Inl (ValueError s) \<and>
       process_files L fname raw text = Inl (ValueError s)"
    using init_text_Inl [OF assms] by blast
qed

theorem C3_text_parse_error_witness:
  "init lib0 ''log.txt'' [] ''1,2\<newline>3,x,4'' = Inl (ValueError ''x'') \<and>
   process_files lib0 ''log.txt'' [] ''1,2\<newline>3,x,4'' = Inl (ValueError ''x'')"
proof -
  have n: "\<not> endswith ''log.txt'' ''.dat''" by (simp add: endswith_def)
  have "splitlines ''1,2\<newline>3,x,4'' = [''1,2''] @ ''3,x,4'' # [] \<and>
     (\<forall>l \<in> set [''1,2'']. \<forall>t \<in> set (split_comma l). float_of lib0 t \<noteq> None) \<and>
     split_comma ''3,x,4'' = [''3''] @ ''x'' # [''4''] \<and>
     (\<forall>t \<in> set [''3'']. float_of lib0 t \<noteq> None) \<and> float_of lib0 ''x'' = None"
    by (simp add: splitlines_def is_linebreak_def split_comma_def lib0_def digit_strings_def)
  then show ?thesis
    using C3_text_parse_error [OF n, of "''1,2\<newline>3,x,4''" lib0 "[]" "[''1,2'']" "''3,x,4''" "[]"
        "[''3'']" "''x''" "[''4'']"]
    by blast
qed

text \<open>The claim as stated fails: the same malformed field as record 0 of one file and as
  record 1 of another raises the same error, so the error does not identify the record.\<close>

theorem C3_record_index_counterexample:
  "splitlines ''x'' ! 0 = ''x'' \<and> splitlines ''1\<newline>x'' ! 1 = ''x'' \<and>
   init lib0 ''log.txt'' [] ''x'' = Inl (ValueError ''x'') \<and>
   init lib0 ''log.txt'' [] ''1\<newline>x'' = Inl (ValueError ''x'')"
  by (simp add: run_text)

end
